theory Spec2Isabelle
  imports Main
begin

section \<open>Python strings\<close>

text \<open>
  A Python \<open>str\<close> is modelled as a \<open>string\<close>; a \<open>char\<close> stands for the code point
  of the same number, so the model covers the code points below 256. \<open>isspace\<close> is
  Python's notion of whitespace on them (the one \<open>str.strip\<close> and the pattern
  \<open>\s\<close> share): tab, line feed, vertical tab, form feed, carriage return, the four
  separators 0x1C to 0x1F, the space, NEL (0x85) and the no-break space (0xA0).
\<close>

definition isspace :: "char \<Rightarrow> bool" where
  "isspace c = ((of_char c :: nat) \<in> {9, 10, 11, 12, 13, 28, 29, 30, 31, 32, 133, 160})"

definition lstrip :: "string \<Rightarrow> string" where
  "lstrip s = dropWhile isspace s"

fun rstrip :: "string \<Rightarrow> string" where
  "rstrip [] = []"
| "rstrip (c # cs) = (if rstrip cs = [] \<and> isspace c then [] else c # rstrip cs)"

text \<open>\<open>s.strip()\<close>\<close>

definition strip :: "string \<Rightarrow> string" where
  "strip s = rstrip (lstrip s)"

text \<open>\<open>re.sub(r'\s+', ' ', s)\<close>: every maximal run of whitespace becomes one space.\<close>

function sub_spaces :: "string \<Rightarrow> string" where
  "sub_spaces [] = []"
| "sub_spaces (c # cs) =
     (if isspace c then CHR '' '' # sub_spaces (dropWhile isspace cs)
      else c # sub_spaces cs)"
  by pat_completeness auto
termination
  by (relation "measure length") (auto simp: length_dropWhile_le less_Suc_eq_le)

text \<open>\<open>s.startswith(p)\<close>\<close>

fun startswith :: "string \<Rightarrow> string \<Rightarrow> bool" where
  "startswith s [] = True"
| "startswith [] (p # ps) = False"
| "startswith (c # cs) (p # ps) = (c = p \<and> startswith cs ps)"

text \<open>\<open>s.split(sep, 1)\<close> for a separator of one character: one piece when \<open>sep\<close> does
  not occur, otherwise the text before its first occurrence and the text after it.\<close>

definition split1 :: "string \<Rightarrow> char \<Rightarrow> string list" where
  "split1 s sep =
     (case dropWhile (\<lambda>c. c \<noteq> sep) s of
        [] \<Rightarrow> [s]
      | _ # rest \<Rightarrow> [takeWhile (\<lambda>c. c \<noteq> sep) s, rest])"

text \<open>\<open>' '.join(xs)\<close> and \<open>sub in s\<close>\<close>

fun join_space :: "string list \<Rightarrow> string" where
  "join_space [] = []"
| "join_space [x] = x"
| "join_space (x # y # ys) = x @ CHR '' '' # join_space (y # ys)"

fun contains :: "string \<Rightarrow> string \<Rightarrow> bool" where
  "contains [] sub = (sub = [])"
| "contains (c # cs) sub = (startswith (c # cs) sub \<or> contains cs sub)"

text \<open>\<open>str(n)\<close> for an integer: its decimal digits, with a sign when negative.\<close>

definition digit :: "nat \<Rightarrow> char" where
  "digit d = char_of (48 + d)"

function str_nat :: "nat \<Rightarrow> string" where
  "str_nat n = (if n < 10 then [digit n] else str_nat (n div 10) @ [digit (n mod 10)])"
  by pat_completeness auto
termination
  by (relation "measure (\<lambda>n. n)") auto

declare str_nat.simps [simp del]

definition str_int :: "int \<Rightarrow> string" where
  "str_int i = (if i < 0 then CHR ''-'' # str_nat (nat (- i)) else str_nat (nat i))"

section \<open>Exceptions\<close>

text \<open>
  An exception is its class and the text \<open>str(e)\<close> gives. \<open>Timeout\<close>,
  \<open>ConnectionError\<close> and \<open>HTTPError\<close> are the subclasses of
  \<open>requests.exceptions.RequestException\<close> the transport raises; \<open>IndexError\<close> is what
  indexing a list out of range raises; \<open>OtherException\<close> is any class outside the
  \<open>RequestException\<close> hierarchy.
\<close>

datatype exception_class =
  Timeout | ConnectionError | HTTPError | RequestException | IndexError | OtherException

datatype py_exception = Raise exception_class string

fun is_RequestException :: "exception_class \<Rightarrow> bool" where
  "is_RequestException Timeout = True"
| "is_RequestException ConnectionError = True"
| "is_RequestException HTTPError = True"
| "is_RequestException RequestException = True"
| "is_RequestException IndexError = False"
| "is_RequestException OtherException = False"

text \<open>\<open>xs[i]\<close>: raises where the index is out of range.\<close>

definition getitem :: "'a list \<Rightarrow> nat \<Rightarrow> py_exception + 'a" where
  "getitem xs i =
     (if i < length xs then Inr (xs ! i)
      else Inl (Raise IndexError ''list index out of range''))"

section \<open>The parsed document\<close>

text \<open>
  The tree BeautifulSoup's \<open>html.parser\<close> builds: a node is a string of text or a tag
  with its name, its \<open>class\<close> attribute (the list of class tokens the parser splits it
  into, \<open>None\<close> when the tag has none), its other attributes and its children. A
  document is the list of the top-level nodes. Comments and the other nodes that
  \<open>get_text\<close> skips are left out. The parser itself is not part of the program and is
  not modelled: every statement below is about the tree.
\<close>

datatype node =
  NavigableString string
| Tag (name: string) (class_attr: "string list option")
      (attrs: "(string \<times> string) list") (contents: "node list")

text \<open>\<open>get_text()\<close>: all the text below a node, in document order.\<close>

fun get_text :: "node \<Rightarrow> string" where
  "get_text (NavigableString s) = s"
| "get_text (Tag n c a ks) = concat (map get_text ks)"

text \<open>
  The tags of a tree in document order, each with the names of its ancestors (the
  nearest first).
\<close>

fun tags_under :: "string list \<Rightarrow> node \<Rightarrow> (string list \<times> node) list" where
  "tags_under ps (NavigableString s) = []"
| "tags_under ps (Tag n c a ks) =
     (ps, Tag n c a ks) # concat (map (tags_under (n # ps)) ks)"

definition tags_in :: "node list \<Rightarrow> (string list \<times> node) list" where
  "tags_in soup = concat (map (tags_under []) soup)"

text \<open>\<open>find_all(name)\<close> and \<open>find(name)\<close>: every tag of that name below, and the first.\<close>

definition find_all :: "node list \<Rightarrow> string \<Rightarrow> node list" where
  "find_all soup nm = filter (\<lambda>t. name t = nm) (map snd (tags_in soup))"

definition find_first :: "node list \<Rightarrow> string \<Rightarrow> node option" where
  "find_first soup nm = (case find_all soup nm of [] \<Rightarrow> None | t # _ \<Rightarrow> Some t)"

text \<open>\<open>find(name, attrs={key: value})\<close>\<close>

definition find_with_attr :: "node list \<Rightarrow> string \<Rightarrow> string \<Rightarrow> string \<Rightarrow> node option" where
  "find_with_attr soup nm key val =
     (case filter (\<lambda>t. name t = nm \<and> map_of (attrs t) key = Some val) (map snd (tags_in soup)) of
        [] \<Rightarrow> None
      | t # _ \<Rightarrow> Some t)"

text \<open>
  An element as \<open>select\<close> hands it out: the tag, the names of its ancestors, and its
  identity. Python's \<open>id(element)\<close> is the address of the tag object, which the tree
  keeps alive, so two tags of one tree never share it; the model uses the position of
  the tag in document order.
\<close>

record element =
  ident :: nat
  parents :: "string list"
  el_tag :: node

definition all_elements :: "node list \<Rightarrow> element list" where
  "all_elements soup =
     map (\<lambda>(i, ps, t). \<lparr>ident = i, parents = ps, el_tag = t\<rparr>) (enumerate 0 (tags_in soup))"

text \<open>
  The CSS selectors the program uses, as soupsieve reads them: \<open>DescendantSel a d\<close> is
  \<open>a d\<close> (a tag \<open>d\<close> below a tag \<open>a\<close>), \<open>TypeSel n\<close> is \<open>n\<close>, \<open>ClassSel c\<close> is \<open>.c\<close>
  and \<open>ClassContains s\<close> is \<open>[class*="s"]\<close>, which looks for \<open>s\<close> in the class tokens
  joined by spaces.
\<close>

datatype selector =
  DescendantSel string string | TypeSel string | ClassSel string | ClassContains string

fun matches :: "selector \<Rightarrow> element \<Rightarrow> bool" where
  "matches (DescendantSel a d) e = (name (el_tag e) = d \<and> a \<in> set (parents e))"
| "matches (TypeSel n) e = (name (el_tag e) = n)"
| "matches (ClassSel c) e =
     (case class_attr (el_tag e) of None \<Rightarrow> False | Some cs \<Rightarrow> c \<in> set cs)"
| "matches (ClassContains s) e =
     (case class_attr (el_tag e) of None \<Rightarrow> False | Some cs \<Rightarrow> contains (join_space cs) s)"

definition select :: "node list \<Rightarrow> selector \<Rightarrow> element list" where
  "select soup sel = filter (matches sel) (all_elements soup)"

section \<open>The program\<close>

record CodeBlock =
  language :: "string option"
  content :: string
  tag :: string

record ScrapedContent =
  url :: string
  title :: "string option"
  headers :: "string \<rightharpoonup> string list"
  paragraphs :: "string list"
  code_blocks :: "CodeBlock list"
  meta_description :: "string option"
  status_code :: int

definition clean_text :: "string \<Rightarrow> string" where
  "clean_text text = (if text = [] then [] else sub_spaces (strip text))"

text \<open>The loop of \<open>extract_code_language\<close> over the classes of the element.\<close>

fun language_of_classes :: "string list \<Rightarrow> py_exception + string option" where
  "language_of_classes [] = Inr None"
| "language_of_classes (cls # rest) =
     (if startswith cls ''language-'' \<or> startswith cls ''lang-'' \<or> startswith cls ''highlight-''
      then (case getitem (split1 cls CHR ''-'') 1 of
              Inl e \<Rightarrow> Inl e
            | Inr r \<Rightarrow> Inr (Some r))
      else if cls \<in> set [''python'', ''javascript'', ''html'', ''css'', ''java'', ''cpp'',
                           ''c'', ''sql'', ''json'', ''xml'']
      then Inr (Some cls)
      else language_of_classes rest)"

definition extract_code_language :: "node \<Rightarrow> py_exception + string option" where
  "extract_code_language element =
     language_of_classes (case class_attr element of None \<Rightarrow> [] | Some classes \<Rightarrow> classes)"

text \<open>The header loop: \<open>for i in range(1, 7)\<close>, updating \<open>headers_dict\<close>.\<close>

fun headers_loop :: "node list \<Rightarrow> int list \<Rightarrow> (string \<rightharpoonup> string list) \<Rightarrow> (string \<rightharpoonup> string list)" where
  "headers_loop soup [] headers_dict = headers_dict"
| "headers_loop soup (i # rest) headers_dict =
     (let header_tag = ''h'' @ str_int i;
          header_elements = find_all soup header_tag
      in headers_loop soup rest
           (if header_elements \<noteq> []
            then headers_dict(header_tag \<mapsto>
                   map (\<lambda>h. clean_text (get_text h))
                     (filter (\<lambda>h. clean_text (get_text h) \<noteq> []) header_elements))
            else headers_dict))"

definition code_selectors :: "selector list" where
  "code_selectors =
     [DescendantSel ''pre'' ''code'', TypeSel ''pre'', TypeSel ''code'',
      ClassSel ''highlight'', ClassSel ''code-block'', ClassSel ''codehilite'',
      ClassContains ''language-'', ClassContains ''highlight-'']"

text \<open>
  The state of the code-block loops: the identities seen so far and the blocks appended
  so far. Each block is kept with the identity of the element it was built from; the
  program's \<open>code_blocks\<close> list is the second components.
\<close>

record loop_state =
  processed_elements :: "nat set"
  found :: "(nat \<times> CodeBlock) list"

text \<open>The language of an element: its own, or for a \<open>pre\<close> without one, that of its
  first \<open>code\<close> descendant.\<close>

definition determine_language :: "node \<Rightarrow> py_exception + string option" where
  "determine_language element =
     (case extract_code_language element of
        Inl e \<Rightarrow> Inl e
      | Inr lang \<Rightarrow>
          if name element = ''pre''
          then (case find_first (contents element) ''code'' of
                  None \<Rightarrow> Inr lang
                | Some code_child \<Rightarrow>
                    if lang = None \<or> lang = Some []
                    then extract_code_language code_child
                    else Inr lang)
          else Inr lang)"

text \<open>The body of the inner loop, for one element of one selector.\<close>

definition process_element :: "element \<Rightarrow> loop_state \<Rightarrow> py_exception + loop_state" where
  "process_element element st =
     (let element_id = ident element in
      if element_id \<in> processed_elements st then Inr st
      else
        let st1 = st\<lparr>processed_elements := insert element_id (processed_elements st)\<rparr>;
            text = get_text (el_tag element)
        in if strip text = [] then Inr st1
           else (case determine_language (el_tag element) of
                   Inl e \<Rightarrow> Inl e
                 | Inr lang \<Rightarrow>
                     Inr (st1\<lparr>found := found st1 @
                            [(element_id,
                              \<lparr>language = lang, content = strip text,
                               tag = name (el_tag element)\<rparr>)]\<rparr>)))"

fun process_elements :: "element list \<Rightarrow> loop_state \<Rightarrow> py_exception + loop_state" where
  "process_elements [] st = Inr st"
| "process_elements (e # es) st =
     (case process_element e st of
        Inl x \<Rightarrow> Inl x
      | Inr st' \<Rightarrow> process_elements es st')"

fun process_selectors :: "node list \<Rightarrow> selector list \<Rightarrow> loop_state \<Rightarrow> py_exception + loop_state" where
  "process_selectors soup [] st = Inr st"
| "process_selectors soup (sel # sels) st =
     (case process_elements (select soup sel) st of
        Inl x \<Rightarrow> Inl x
      | Inr st' \<Rightarrow> process_selectors soup sels st')"

definition collect_code_blocks :: "node list \<Rightarrow> py_exception + (nat \<times> CodeBlock) list" where
  "collect_code_blocks soup =
     (case process_selectors soup code_selectors \<lparr>processed_elements = {}, found = []\<rparr> of
        Inl x \<Rightarrow> Inl x
      | Inr st \<Rightarrow> Inr (found st))"

text \<open>
  The extraction: what \<open>scrape_website\<close> does with the parsed document, from the title
  to the construction of the result.
\<close>

definition extract_content :: "string \<Rightarrow> int \<Rightarrow> node list \<Rightarrow> py_exception + ScrapedContent" where
  "extract_content u status soup =
     (let title_tag = find_first soup ''title'';
          title' = (case title_tag of None \<Rightarrow> None | Some t \<Rightarrow> Some (clean_text (get_text t)));
          meta_desc = find_with_attr soup ''meta'' ''name'' ''description'';
          meta_description' = (case meta_desc of None \<Rightarrow> None | Some m \<Rightarrow> map_of (attrs m) ''content'');
          headers_dict = headers_loop soup [1..6] Map.empty;
          paragraph_elements = find_all soup ''p'';
          paragraphs' = map (\<lambda>p. clean_text (get_text p))
                          (filter (\<lambda>p. clean_text (get_text p) \<noteq> []) paragraph_elements)
      in case collect_code_blocks soup of
           Inl x \<Rightarrow> Inl x
         | Inr entries \<Rightarrow>
             Inr \<lparr>url = u, title = title', headers = headers_dict, paragraphs = paragraphs',
                  code_blocks = map snd entries, meta_description = meta_description',
                  status_code = status\<rparr>)"

subsection \<open>The fetch\<close>

text \<open>
  What \<open>requests.get\<close> returns: the status line, the final URL, and the body, given
  as the tree the parser builds from it.
\<close>

record response =
  r_status_code :: int
  r_reason :: string
  r_url :: string
  r_content :: "node list"

text \<open>\<open>Response.raise_for_status()\<close> of the requests library.\<close>

definition raise_for_status :: "response \<Rightarrow> py_exception + unit" where
  "raise_for_status r =
     (if 400 \<le> r_status_code r \<and> r_status_code r < 500
      then Inl (Raise HTTPError
                  (str_int (r_status_code r) @ '' Client Error: '' @ r_reason r @
                   '' for url: '' @ r_url r))
      else if 500 \<le> r_status_code r \<and> r_status_code r < 600
      then Inl (Raise HTTPError
                  (str_int (r_status_code r) @ '' Server Error: '' @ r_reason r @
                   '' for url: '' @ r_url r))
      else Inr ())"

datatype http_exception = HTTPException (exc_status_code: int) (detail: string)

definition default_user_agent :: string where
  "default_user_agent = ''Mozilla/5.0 (Windows NT 10.0; Win64; x64) AppleWebKit/537.36''"

text \<open>The \<open>headers\<close> dictionary of the request: \<open>user_agent or '...'\<close> takes the
  default when the argument is \<open>None\<close> or the empty string.\<close>

definition request_headers :: "string option \<Rightarrow> (string \<times> string) list" where
  "request_headers user_agent =
     [(''User-Agent'',
       (case user_agent of
          None \<Rightarrow> default_user_agent
        | Some a \<Rightarrow> if a = [] then default_user_agent else a))]"

text \<open>
  The network is a parameter: \<open>get u hdrs timeout\<close> is what
  \<open>requests.get(url, headers=hdrs, timeout=timeout)\<close> does, a response or an
  exception.
\<close>

type_synonym transport =
  "string \<Rightarrow> (string \<times> string) list \<Rightarrow> int \<Rightarrow> py_exception + response"

text \<open>The body of the \<open>try\<close> block.\<close>

definition try_scrape :: "transport \<Rightarrow> string \<Rightarrow> int \<Rightarrow> string option \<Rightarrow> py_exception + ScrapedContent" where
  "try_scrape get u timeout user_agent =
     (case get u (request_headers user_agent) timeout of
        Inl e \<Rightarrow> Inl e
      | Inr resp \<Rightarrow>
          (case raise_for_status resp of
             Inl e \<Rightarrow> Inl e
           | Inr _ \<Rightarrow> extract_content u (r_status_code resp) (r_content resp)))"

text \<open>\<open>scrape_website\<close>: the \<open>try\<close> block and its two handlers.\<close>

definition scrape_website :: "transport \<Rightarrow> string \<Rightarrow> int \<Rightarrow> string option \<Rightarrow> http_exception + ScrapedContent" where
  "scrape_website get u timeout user_agent =
     (case try_scrape get u timeout user_agent of
        Inr result \<Rightarrow> Inr result
      | Inl (Raise cls msg) \<Rightarrow>
          if is_RequestException cls
          then Inl (HTTPException 400 (''Failed to fetch URL: '' @ msg))
          else Inl (HTTPException 500 (''Scraping error: '' @ msg)))"

section \<open>The specification's wording\<close>

text \<open>
  The text normalisation as the specification words it: collapse every run of
  whitespace to one space, then trim.
\<close>

definition spec_normalize :: "string \<Rightarrow> string" where
  "spec_normalize s = strip (sub_spaces s)"

text \<open>
  Language recognition as the specification words it: a class is a language token when
  it starts with one of the three prefixes or is one of the known languages; a prefixed
  token names what follows its first hyphen, a known language names itself; the first
  token of the class list decides.
\<close>

definition spec_has_language_prefix :: "string \<Rightarrow> bool" where
  "spec_has_language_prefix cls =
     (startswith cls ''language-'' \<or> startswith cls ''lang-'' \<or> startswith cls ''highlight-'')"

definition spec_known_languages :: "string list" where
  "spec_known_languages =
     [''python'', ''javascript'', ''html'', ''css'', ''java'', ''cpp'', ''c'', ''sql'',
      ''json'', ''xml'']"

definition spec_after_first_hyphen :: "string \<Rightarrow> string" where
  "spec_after_first_hyphen cls = tl (dropWhile (\<lambda>c. c \<noteq> CHR ''-'') cls)"

definition spec_is_language_class :: "string \<Rightarrow> bool" where
  "spec_is_language_class cls =
     (spec_has_language_prefix cls \<or> cls \<in> set spec_known_languages)"

definition spec_language_name :: "string \<Rightarrow> string" where
  "spec_language_name cls =
     (if spec_has_language_prefix cls then spec_after_first_hyphen cls else cls)"

definition spec_recognized_language :: "string list \<Rightarrow> string option" where
  "spec_recognized_language classes =
     (case filter spec_is_language_class classes of
        [] \<Rightarrow> None
      | cls # _ \<Rightarrow> Some (spec_language_name cls))"

section \<open>Auxiliary notions for the proofs\<close>

text \<open>\<open>block_of e b\<close>: \<open>b\<close> is the CodeBlock the loop body builds from the element \<open>e\<close>.\<close>

definition block_of :: "element \<Rightarrow> CodeBlock \<Rightarrow> bool" where
  "block_of e b \<longleftrightarrow>
     determine_language (el_tag e) = Inr (language b) \<and>
     content b = strip (get_text (el_tag e)) \<and> tag b = name (el_tag e)"

text \<open>
  The invariant of the code-block loops: the blocks found come from distinct
  identities, all of them marked as processed; each block was built from the element of
  its identity, whose text is not blank; and every processed element whose text is not
  blank has its block.
\<close>

definition loop_inv :: "node list \<Rightarrow> loop_state \<Rightarrow> bool" where
  "loop_inv soup st \<longleftrightarrow>
     distinct (map fst (found st)) \<and>
     fst ` set (found st) \<subseteq> processed_elements st \<and>
     (\<forall>i b. (i, b) \<in> set (found st) \<longrightarrow>
        (\<exists>e\<in>set (all_elements soup).
           ident e = i \<and> strip (get_text (el_tag e)) \<noteq> [] \<and> block_of e b)) \<and>
     (\<forall>e\<in>set (all_elements soup). ident e \<in> processed_elements st \<longrightarrow>
        strip (get_text (el_tag e)) \<noteq> [] \<longrightarrow> ident e \<in> fst ` set (found st))"

subsection \<open>Documents and transports used as concrete inputs\<close>

text \<open>\<open><pre class="language-python"><code>print(1)</code></pre>\<close>\<close>

definition doc_pre_python :: "node list" where
  "doc_pre_python =
     [Tag ''pre'' (Some [''language-python'']) []
        [Tag ''code'' None [] [NavigableString ''print(1)'']]]"

text \<open>\<open><pre><code class="javascript">x</code></pre>\<close>\<close>

definition doc_code_javascript :: "node list" where
  "doc_code_javascript =
     [Tag ''pre'' None [] [Tag ''code'' (Some [''javascript'']) [] [NavigableString ''x'']]]"

text \<open>\<open><div><pre><code>foo</code></pre></div><pre><code>foo</code></pre>\<close>\<close>

definition doc_two_pre_code :: "node list" where
  "doc_two_pre_code =
     [Tag ''div'' None [] [Tag ''pre'' None [] [Tag ''code'' None [] [NavigableString ''foo'']]],
      Tag ''pre'' None [] [Tag ''code'' None [] [NavigableString ''foo'']]]"

text \<open>\<open><h1> </h1>\<close>: one heading, whose text is a single space.\<close>

definition doc_blank_heading :: "node list" where
  "doc_blank_heading = [Tag ''h1'' None [] [NavigableString '' '']]"

text \<open>\<open><title> A  B </title><meta name="description" content=" x  y "><p> one  two </p><p> </p>\<close>\<close>

definition doc_page :: "node list" where
  "doc_page =
     [Tag ''title'' None [] [NavigableString '' A  B ''],
      Tag ''meta'' None [(''name'', ''description''), (''content'', '' x  y '')] [],
      Tag ''p'' None [] [NavigableString '' one  two ''],
      Tag ''p'' None [] [NavigableString '' '']]"

text \<open>A transport that answers every request with the given status and document.\<close>

definition answers :: "int \<Rightarrow> string \<Rightarrow> node list \<Rightarrow> transport" where
  "answers status reason soup =
     (\<lambda>u hdrs timeout.
        Inr \<lparr>r_status_code = status, r_reason = reason, r_url = u, r_content = soup\<rparr>)"

text \<open>A transport on which every request fails with the given exception.\<close>

definition fails :: "exception_class \<Rightarrow> string \<Rightarrow> transport" where
  "fails cls cause = (\<lambda>u hdrs timeout. Inl (Raise cls cause))"

section \<open>Language recognition\<close>

lemma startswith_iff: "startswith s p \<longleftrightarrow> (\<exists>r. s = p @ r)"
  by (induction s p rule: startswith.induct) auto

text \<open>Behind one of the three prefixes, index 1 of the split exists: no \<open>IndexError\<close>.\<close>

lemma split_after_prefix:
  assumes "spec_has_language_prefix cls"
  shows "getitem (split1 cls CHR ''-'') 1 = Inr (spec_after_first_hyphen cls)"
proof -
  from assms obtain r where
    "cls = ''language-'' @ r \<or> cls = ''lang-'' @ r \<or> cls = ''highlight-'' @ r"
    unfolding spec_has_language_prefix_def startswith_iff by blast
  then show ?thesis
    by (auto simp: getitem_def split1_def spec_after_first_hyphen_def)
qed

lemma language_of_classes_spec:
  "language_of_classes classes = Inr (spec_recognized_language classes)"
proof (induction classes)
  case Nil
  show ?case by (simp add: spec_recognized_language_def)
next
  case (Cons cls rest)
  show ?case
  proof (cases "spec_has_language_prefix cls")
    case True
    then have "language_of_classes (cls # rest) = Inr (Some (spec_after_first_hyphen cls))"
      using split_after_prefix [OF True] by (simp add: spec_has_language_prefix_def)
    with True show ?thesis
      by (simp add: spec_recognized_language_def spec_is_language_class_def
          spec_language_name_def)
  next
    case False
    then show ?thesis
      using Cons
      by (simp add: spec_recognized_language_def spec_is_language_class_def
          spec_language_name_def spec_has_language_prefix_def spec_known_languages_def)
  qed
qed

lemma extract_code_language_spec:
  "extract_code_language element =
     Inr (spec_recognized_language (case class_attr element of None \<Rightarrow> [] | Some cs \<Rightarrow> cs))"
  by (simp add: extract_code_language_def language_of_classes_spec)

text \<open>
  C5. For every element, \<open>extract_code_language\<close> never raises and returns the language
  the specification's rule gives for its class list: the name of the first class that
  has one of the prefixes \<open>language-\<close>, \<open>lang-\<close>, \<open>highlight-\<close> or is one of the ten
  known languages, and nothing when no class is such a token. For a prefixed class the
  name is the text after the first hyphen, that is, everything behind the prefix; for a
  known language it is the class itself.
\<close>

theorem extract_code_language_first_match:
  "extract_code_language element =
     Inr (spec_recognized_language (case class_attr element of None \<Rightarrow> [] | Some cs \<Rightarrow> cs))
   \<and> spec_language_name (''language-'' @ r) = r
   \<and> spec_language_name (''lang-'' @ r) = r
   \<and> spec_language_name (''highlight-'' @ r) = r
   \<and> spec_recognized_language [] = None
   \<and> spec_recognized_language (cls # rest) =
       (if spec_is_language_class cls then Some (spec_language_name cls)
        else spec_recognized_language rest)"
  by (simp add: extract_code_language_spec spec_language_name_def spec_has_language_prefix_def
      spec_after_first_hyphen_def spec_recognized_language_def)

section \<open>Text normalisation\<close>

lemma isspace_space: "isspace CHR '' ''"
  by (simp add: isspace_def)

lemma sub_spaces_Nil_iff: "sub_spaces xs = [] \<longleftrightarrow> xs = []"
  by (cases xs) auto

lemma dropWhile_fix_head: "dropWhile P (x # xs) = x # xs \<Longrightarrow> \<not> P x"
proof
  assume eq: "dropWhile P (x # xs) = x # xs" and px: "P x"
  from px eq have "dropWhile P xs = x # xs" by simp
  then have "length (dropWhile P xs) = Suc (length xs)" by simp
  moreover have "length (dropWhile P xs) \<le> length xs" by (rule length_dropWhile_le)
  ultimately show False by simp
qed

lemma sub_spaces_keeps_head:
  "dropWhile isspace xs = xs \<Longrightarrow> dropWhile isspace (sub_spaces xs) = sub_spaces xs"
proof (cases xs)
  case Nil
  then show ?thesis by simp
next
  case (Cons x xs')
  assume "dropWhile isspace xs = xs"
  with Cons have "\<not> isspace x" using dropWhile_fix_head by metis
  with Cons show ?thesis by simp
qed

text \<open>Collapsing commutes with trimming on the left ...\<close>

lemma sub_spaces_lstrip: "sub_spaces (lstrip s) = lstrip (sub_spaces s)"
proof (cases s)
  case Nil
  then show ?thesis by (simp add: lstrip_def)
next
  case (Cons c cs)
  show ?thesis
  proof (cases "isspace c")
    case True
    have "dropWhile isspace (sub_spaces (dropWhile isspace cs)) = sub_spaces (dropWhile isspace cs)"
      by (rule sub_spaces_keeps_head) simp
    with True Cons show ?thesis by (simp add: lstrip_def isspace_space)
  next
    case False
    with Cons show ?thesis by (simp add: lstrip_def)
  qed
qed

lemma rstrip_Nil_iff: "rstrip xs = [] \<longleftrightarrow> (\<forall>x\<in>set xs. isspace x)"
  by (induction xs) auto

lemma rstrip_all_space: "\<forall>x\<in>set xs. isspace x \<Longrightarrow> rstrip xs = []"
  by (simp add: rstrip_Nil_iff)

lemma rstrip_dropWhile: "rstrip (dropWhile isspace xs) = dropWhile isspace (rstrip xs)"
  by (induction xs) (auto simp: rstrip_all_space)

lemma rstrip_rev: "rstrip s = rev (dropWhile isspace (rev s))"
  by (induction s) (auto simp: dropWhile_append)

lemma all_space_dropWhile:
  "(\<forall>x\<in>set (dropWhile isspace cs). isspace x) \<longleftrightarrow> (\<forall>x\<in>set cs. isspace x)"
  by (induction cs) auto

lemma sub_spaces_all_space:
  "(\<forall>x\<in>set (sub_spaces xs). isspace x) \<longleftrightarrow> (\<forall>x\<in>set xs. isspace x)"
proof (induction xs rule: sub_spaces.induct)
  case 1
  show ?case by simp
next
  case (2 c cs)
  show ?case
  proof (cases "isspace c")
    case True
    with 2 show ?thesis by (simp add: isspace_space all_space_dropWhile)
  next
    case False
    then show ?thesis by auto
  qed
qed

text \<open>... and on the right.\<close>

lemma sub_spaces_rstrip: "sub_spaces (rstrip s) = rstrip (sub_spaces s)"
proof (induction s rule: sub_spaces.induct)
  case 1
  show ?case by simp
next
  case (2 c cs)
  show ?case
  proof (cases "isspace c")
    case sp: True
    show ?thesis
    proof (cases "\<forall>x\<in>set cs. isspace x")
      case True
      then have dw: "dropWhile isspace cs = []" by simp
      from sp True have l: "rstrip (c # cs) = []" by (simp add: rstrip_all_space)
      from sp have "sub_spaces (c # cs) = [CHR '' '']" unfolding sub_spaces.simps dw by simp
      with l show ?thesis by (simp add: isspace_space)
    next
      case False
      then have ne: "rstrip cs \<noteq> []" by (simp add: rstrip_Nil_iff)
      from False have "\<not> (\<forall>x\<in>set (dropWhile isspace cs). isspace x)"
        by (simp add: all_space_dropWhile)
      then have ne': "rstrip (sub_spaces (dropWhile isspace cs)) \<noteq> []"
        by (simp add: rstrip_Nil_iff sub_spaces_all_space)
      from sp ne have "sub_spaces (rstrip (c # cs)) =
          CHR '' '' # sub_spaces (dropWhile isspace (rstrip cs))"
        by simp
      also have "\<dots> = CHR '' '' # rstrip (sub_spaces (dropWhile isspace cs))"
        using 2(1) [OF sp] by (simp add: rstrip_dropWhile)
      also have "\<dots> = rstrip (sub_spaces (c # cs))"
        using sp ne' by simp
      finally show ?thesis .
    qed
  next
    case False
    with 2 show ?thesis by simp
  qed
qed

text \<open>The program trims first and collapses afterwards; the result is the same.\<close>

lemma clean_text_spec: "clean_text s = spec_normalize s"
proof (cases "s = []")
  case True
  then show ?thesis by (simp add: clean_text_def spec_normalize_def strip_def lstrip_def)
next
  case False
  then have "clean_text s = sub_spaces (rstrip (lstrip s))"
    by (simp add: clean_text_def strip_def)
  also have "\<dots> = rstrip (lstrip (sub_spaces s))"
    by (simp only: sub_spaces_rstrip sub_spaces_lstrip)
  finally show ?thesis by (simp add: strip_def spec_normalize_def)
qed

lemma strip_Nil_iff: "strip s = [] \<longleftrightarrow> list_all isspace s"
  by (simp add: strip_def lstrip_def rstrip_Nil_iff list_all_iff all_space_dropWhile)

lemma spec_normalize_Nil_iff: "spec_normalize s = [] \<longleftrightarrow> list_all isspace s"
  by (simp add: spec_normalize_def strip_Nil_iff list_all_iff sub_spaces_all_space)

section \<open>The code-block loops\<close>

lemma determine_language_total: "\<exists>l. determine_language t = Inr l"
  by (simp add: determine_language_def extract_code_language_spec split: option.splits)

text \<open>The identities of the elements of a document are the positions \<open>0, 1, \<dots>\<close>, so
  no two elements share one.\<close>

lemma ident_all_elements: "map ident (all_elements soup) = [0..<length (tags_in soup)]"
proof -
  have "map ident (all_elements soup) = map fst (enumerate 0 (tags_in soup))"
    by (simp add: all_elements_def case_prod_beta comp_def)
  then show ?thesis by simp
qed

lemma ident_inj:
  assumes "e1 \<in> set (all_elements soup)" "e2 \<in> set (all_elements soup)" "ident e1 = ident e2"
  shows "e1 = e2"
proof -
  have "distinct (map ident (all_elements soup))" by (simp add: ident_all_elements)
  then have "inj_on ident (set (all_elements soup))" by (simp add: distinct_map)
  with assms show ?thesis by (auto dest: inj_onD)
qed

text \<open>One pass of the loop body never raises and does one of three things.\<close>

lemma process_element_cases:
  obtains
    (seen) "ident e \<in> processed_elements st" "process_element e st = Inr st"
  | (blank) "ident e \<notin> processed_elements st" "strip (get_text (el_tag e)) = []"
      "process_element e st =
         Inr (st\<lparr>processed_elements := insert (ident e) (processed_elements st)\<rparr>)"
  | (block) b where "ident e \<notin> processed_elements st" "strip (get_text (el_tag e)) \<noteq> []"
      "block_of e b"
      "process_element e st =
         Inr (st\<lparr>processed_elements := insert (ident e) (processed_elements st),
                 found := found st @ [(ident e, b)]\<rparr>)"
proof -
  obtain l where l: "determine_language (el_tag e) = Inr l"
    using determine_language_total by blast
  show thesis
  proof (cases "ident e \<in> processed_elements st")
    case True
    then show thesis by (intro seen) (simp_all add: process_element_def)
  next
    case new: False
    show thesis
    proof (cases "strip (get_text (el_tag e)) = []")
      case True
      with new show thesis by (intro blank) (simp_all add: process_element_def)
    next
      case False
      let ?b = "\<lparr>language = l, content = strip (get_text (el_tag e)), tag = name (el_tag e)\<rparr>"
      have "block_of e ?b" by (simp add: block_of_def l)
      with new False show thesis
        by (intro block [of ?b]) (simp_all add: process_element_def l Let_def)
    qed
  qed
qed

lemma process_element_inv:
  assumes "e \<in> set (all_elements soup)" "loop_inv soup st"
  shows "\<exists>st'. process_element e st = Inr st' \<and> loop_inv soup st' \<and>
           processed_elements st' = insert (ident e) (processed_elements st)"
proof (cases e st rule: process_element_cases)
  case seen
  with assms show ?thesis by (auto simp: insert_absorb)
next
  case blank
  have "loop_inv soup (st\<lparr>processed_elements := insert (ident e) (processed_elements st)\<rparr>)"
    using assms blank(1,2) unfolding loop_inv_def
    by (auto dest: ident_inj [OF _ assms(1)])
  with blank show ?thesis by simp
next
  case (block b)
  let ?st' = "st\<lparr>processed_elements := insert (ident e) (processed_elements st),
                  found := found st @ [(ident e, b)]\<rparr>"
  have notin: "ident e \<notin> fst ` set (found st)"
    using assms(2) block(1) unfolding loop_inv_def by blast
  have "loop_inv soup ?st'"
    unfolding loop_inv_def
  proof (intro conjI)
    show "distinct (map fst (found ?st'))"
      using assms(2) notin by (simp add: loop_inv_def)
  next
    show "fst ` set (found ?st') \<subseteq> processed_elements ?st'"
      using assms(2) by (auto simp: loop_inv_def)
  next
    show "\<forall>i b'. (i, b') \<in> set (found ?st') \<longrightarrow>
        (\<exists>e'\<in>set (all_elements soup).
           ident e' = i \<and> strip (get_text (el_tag e')) \<noteq> [] \<and> block_of e' b')"
      using assms block(2,3) unfolding loop_inv_def by auto
  next
    show "\<forall>e'\<in>set (all_elements soup). ident e' \<in> processed_elements ?st' \<longrightarrow>
       strip (get_text (el_tag e')) \<noteq> [] \<longrightarrow> ident e' \<in> fst ` set (found ?st')"
      using assms(2) unfolding loop_inv_def by auto
  qed
  with block show ?thesis by simp
qed

lemma process_elements_inv:
  assumes "set es \<subseteq> set (all_elements soup)" "loop_inv soup st"
  shows "\<exists>st'. process_elements es st = Inr st' \<and> loop_inv soup st' \<and>
           processed_elements st' = ident ` set es \<union> processed_elements st"
  using assms
proof (induction es arbitrary: st)
  case Nil
  then show ?case by simp
next
  case (Cons e es)
  from Cons.prems obtain st1 where
    1: "process_element e st = Inr st1" "loop_inv soup st1"
       "processed_elements st1 = insert (ident e) (processed_elements st)"
    using process_element_inv [of e soup st] by auto
  from Cons.prems 1(2) obtain st2 where
    2: "process_elements es st1 = Inr st2" "loop_inv soup st2"
       "processed_elements st2 = ident ` set es \<union> processed_elements st1"
    using Cons.IH [of st1] by auto
  from 1 2 show ?case by auto
qed

lemma process_selectors_inv:
  assumes "loop_inv soup st"
  shows "\<exists>st'. process_selectors soup sels st = Inr st' \<and> loop_inv soup st' \<and>
           processed_elements st' =
             ident ` {e \<in> set (all_elements soup). \<exists>sel\<in>set sels. matches sel e} \<union>
             processed_elements st"
  using assms
proof (induction sels arbitrary: st)
  case Nil
  then show ?case by simp
next
  case (Cons sel sels)
  have sub: "set (select soup sel) \<subseteq> set (all_elements soup)" by (auto simp: select_def)
  from Cons.prems obtain st1 where
    1: "process_elements (select soup sel) st = Inr st1" "loop_inv soup st1"
       "processed_elements st1 = ident ` set (select soup sel) \<union> processed_elements st"
    using process_elements_inv [OF sub] by blast
  from 1(2) obtain st2 where
    2: "process_selectors soup sels st1 = Inr st2" "loop_inv soup st2"
       "processed_elements st2 =
          ident ` {e \<in> set (all_elements soup). \<exists>sel\<in>set sels. matches sel e} \<union>
          processed_elements st1"
    using Cons.IH [of st1] by blast
  have "processed_elements st2 =
      ident ` {e \<in> set (all_elements soup). \<exists>s\<in>set (sel # sels). matches s e} \<union>
      processed_elements st"
    unfolding 2(3) 1(3) by (auto simp: select_def)
  with 1 2 show ?case by simp
qed

text \<open>The loops as a whole never raise.\<close>

lemma collect_code_blocks_inv:
  "\<exists>st. collect_code_blocks soup = Inr (found st) \<and> loop_inv soup st \<and>
     processed_elements st =
       ident ` {e \<in> set (all_elements soup). \<exists>sel\<in>set code_selectors. matches sel e}"
proof -
  have "loop_inv soup \<lparr>processed_elements = {}, found = []\<rparr>"
    by (simp add: loop_inv_def)
  from process_selectors_inv [OF this, of code_selectors]
  show ?thesis by (auto simp: collect_code_blocks_def)
qed

lemma collect_code_blocks_total: "\<exists>entries. collect_code_blocks soup = Inr entries"
  using collect_code_blocks_inv by blast

lemma matched_element_has_block:
  assumes "e \<in> set (all_elements soup)" "sel \<in> set code_selectors" "matches sel e"
    "strip (get_text (el_tag e)) \<noteq> []"
  shows "\<exists>entries b. collect_code_blocks soup = Inr entries \<and> distinct (map fst entries) \<and>
           (ident e, b) \<in> set entries \<and> block_of e b"
proof -
  obtain st where st: "collect_code_blocks soup = Inr (found st)" "loop_inv soup st"
    "processed_elements st =
       ident ` {e \<in> set (all_elements soup). \<exists>sel\<in>set code_selectors. matches sel e}"
    using collect_code_blocks_inv by blast
  from assms have "ident e \<in> processed_elements st" unfolding st(3) by blast
  with assms st(2) have "ident e \<in> fst ` set (found st)" unfolding loop_inv_def by blast
  then obtain b where b: "(ident e, b) \<in> set (found st)" by force
  with st(2) obtain e' where e': "e' \<in> set (all_elements soup)" "ident e' = ident e" "block_of e' b"
    unfolding loop_inv_def by blast
  from e'(1) assms(1) e'(2) have "e' = e" by (rule ident_inj)
  with e'(3) b st(1,2) show ?thesis by (auto simp: loop_inv_def)
qed


section \<open>The extraction as a whole\<close>

text \<open>The extraction never raises; its result, field by field.\<close>

lemma extract_content_eq:
  assumes "collect_code_blocks soup = Inr entries"
  shows "extract_content u status soup =
     Inr \<lparr>url = u,
          title = (case find_first soup ''title'' of
                     None \<Rightarrow> None
                   | Some t \<Rightarrow> Some (clean_text (get_text t))),
          headers = headers_loop soup [1..6] Map.empty,
          paragraphs = map (\<lambda>p. clean_text (get_text p))
                         (filter (\<lambda>p. clean_text (get_text p) \<noteq> []) (find_all soup ''p'')),
          code_blocks = map snd entries,
          meta_description = (case find_with_attr soup ''meta'' ''name'' ''description'' of
                                None \<Rightarrow> None
                              | Some m \<Rightarrow> map_of (attrs m) ''content''),
          status_code = status\<rparr>"
  using assms by (simp add: extract_content_def Let_def)

lemmas eval_defs =
  collect_code_blocks_def code_selectors_def select_def all_elements_def tags_in_def
  process_element_def determine_language_def extract_code_language_def find_first_def
  find_all_def find_with_attr_def strip_def lstrip_def isspace_def getitem_def split1_def Let_def

lemma collect_doc_pre_python:
  "collect_code_blocks doc_pre_python =
     Inr [(1, \<lparr>language = None, content = ''print(1)'', tag = ''code''\<rparr>),
          (0, \<lparr>language = Some ''python'', content = ''print(1)'', tag = ''pre''\<rparr>)]"
  by (simp add: doc_pre_python_def eval_defs)

lemma collect_doc_code_javascript:
  "collect_code_blocks doc_code_javascript =
     Inr [(1, \<lparr>language = Some ''javascript'', content = ''x'', tag = ''code''\<rparr>),
          (0, \<lparr>language = Some ''javascript'', content = ''x'', tag = ''pre''\<rparr>)]"
  by (simp add: doc_code_javascript_def eval_defs)

lemma collect_doc_two_pre_code:
  "collect_code_blocks doc_two_pre_code =
     Inr [(2, \<lparr>language = None, content = ''foo'', tag = ''code''\<rparr>),
          (4, \<lparr>language = None, content = ''foo'', tag = ''code''\<rparr>),
          (1, \<lparr>language = None, content = ''foo'', tag = ''pre''\<rparr>),
          (3, \<lparr>language = None, content = ''foo'', tag = ''pre''\<rparr>)]"
  by (simp add: doc_two_pre_code_def eval_defs)

section \<open>Code blocks\<close>



text \<open>
  C4. Wherever a document holds a \<open>pre\<close> element whose text is not blank, whose own
  class list has no language token and which has a \<open>code\<close> descendant, the result has
  a CodeBlock with tag \<open>pre\<close>, the trimmed text of the element as content, and the
  language recognised from the class list of the first \<open>code\<close> descendant.
\<close>

theorem pre_language_from_code_child:
  assumes "e \<in> set (all_elements soup)"
    and "name (el_tag e) = ''pre''"
    and "strip (get_text (el_tag e)) \<noteq> []"
    and "extract_code_language (el_tag e) = Inr None"
    and "find_first (contents (el_tag e)) ''code'' = Some code_child"
  shows "\<exists>r b. extract_content u status soup = Inr r \<and> b \<in> set (code_blocks r) \<and>
           tag b = ''pre'' \<and> content b = strip (get_text (el_tag e)) \<and>
           extract_code_language code_child = Inr (language b)"
proof -
  have "TypeSel ''pre'' \<in> set code_selectors" by (simp add: code_selectors_def)
  moreover have "matches (TypeSel ''pre'') e" using assms(2) by simp
  ultimately obtain entries b where
    b: "collect_code_blocks soup = Inr entries" "(ident e, b) \<in> set entries" "block_of e b"
    using matched_element_has_block [OF assms(1) _ _ assms(3)] by blast
  from assms(2,4,5) have "determine_language (el_tag e) = extract_code_language code_child"
    by (simp add: determine_language_def)
  with b(3) have "extract_code_language code_child = Inr (language b)"
    "tag b = ''pre''" "content b = strip (get_text (el_tag e))"
    using assms(2) by (simp_all add: block_of_def)
  moreover obtain r where "extract_content u status soup = Inr r" "code_blocks r = map snd entries"
    using extract_content_eq [OF b(1)] by simp
  moreover from b(2) have "b \<in> set (map snd entries)" by force
  ultimately show ?thesis by auto
qed

text \<open>
  The theorem at \<open><pre><code class="javascript">x</code></pre>\<close>: the \<open>pre\<close> has no
  class, its \<open>code\<close> child has the class \<open>javascript\<close>, and the result holds a block
  with tag \<open>pre\<close> and language \<open>javascript\<close>.
\<close>

theorem pre_language_from_code_child_witness:
  "\<lparr>ident = 0, parents = [],
     el_tag = Tag ''pre'' None [] [Tag ''code'' (Some [''javascript'']) [] [NavigableString ''x'']]\<rparr>
     \<in> set (all_elements doc_code_javascript)
   \<and> extract_code_language
       (Tag ''pre'' None [] [Tag ''code'' (Some [''javascript'']) [] [NavigableString ''x'']]) = Inr None
   \<and> find_first [Tag ''code'' (Some [''javascript'']) [] [NavigableString ''x'']] ''code'' =
       Some (Tag ''code'' (Some [''javascript'']) [] [NavigableString ''x''])
   \<and> (\<exists>r b. extract_content [] 200 doc_code_javascript = Inr r \<and> b \<in> set (code_blocks r) \<and>
         tag b = ''pre'' \<and> content b = ''x'' \<and> language b = Some ''javascript'')"
proof -
  let ?code = "Tag ''code'' (Some [''javascript'']) [] [NavigableString ''x'']"
  let ?e = "\<lparr>ident = 0, parents = [], el_tag = Tag ''pre'' None [] [?code]\<rparr>"
  have 1: "?e \<in> set (all_elements doc_code_javascript)"
    by (simp add: doc_code_javascript_def all_elements_def tags_in_def)
  have 2: "name (el_tag ?e) = ''pre''" by simp
  have 3: "strip (get_text (el_tag ?e)) \<noteq> []"
    by (simp add: strip_def lstrip_def isspace_def)
  have 4: "extract_code_language (el_tag ?e) = Inr None"
    by (simp add: extract_code_language_def)
  have 5: "find_first (contents (el_tag ?e)) ''code'' = Some ?code"
    by (simp add: find_first_def find_all_def tags_in_def)
  have 6: "extract_code_language ?code = Inr (Some ''javascript'')"
    by (simp add: extract_code_language_def)
  have 7: "strip (get_text (el_tag ?e)) = ''x''"
    by (simp add: strip_def lstrip_def isspace_def)
  from pre_language_from_code_child [OF 1 2 3 4 5, of "[]" 200]
  obtain r b where "extract_content [] 200 doc_code_javascript = Inr r" "b \<in> set (code_blocks r)"
    "tag b = ''pre''" "content b = strip (get_text (el_tag ?e))"
    "extract_code_language ?code = Inr (language b)"
    by blast
  with 6 7 have "\<exists>r b. extract_content [] 200 doc_code_javascript = Inr r \<and> b \<in> set (code_blocks r) \<and>
         tag b = ''pre'' \<and> content b = ''x'' \<and> language b = Some ''javascript''"
    by auto
  with 1 4 5 show ?thesis by simp
qed

text \<open>
  C1, as the program has it. For the document that is the one element
  \<open><pre class="language-python"><code>print(1)</code></pre>\<close> the result holds two
  CodeBlocks: the selector \<open>pre code\<close> comes first and gives the block of the inner
  \<open>code\<close> element (no language, tag \<open>code\<close>); the selector \<open>pre\<close> then gives the block
  of the \<open>pre\<close> element, with language \<open>python\<close> and tag \<open>pre\<close>. The two elements have
  different identities, so neither is skipped.
\<close>

theorem pre_python_two_blocks:
  "\<exists>r. extract_content u status doc_pre_python = Inr r \<and>
     code_blocks r =
       [\<lparr>language = None, content = ''print(1)'', tag = ''code''\<rparr>,
        \<lparr>language = Some ''python'', content = ''print(1)'', tag = ''pre''\<rparr>]"
  using extract_content_eq [OF collect_doc_pre_python, of u status] by simp

text \<open>
  The specification's sentence (exactly one CodeBlock) fails at that document: the
  result has two.
\<close>

theorem pre_python_one_block_counterexample:
  "map_sum id (\<lambda>r. length (code_blocks r)) (extract_content ''http://example.com/'' 200 doc_pre_python)
     = Inr 2"
  using extract_content_eq [OF collect_doc_pre_python, of "''http://example.com/''" 200] by simp

section \<open>Title, meta description, headings and paragraphs\<close>

lemma extract_content_fields:
  "\<exists>r. extract_content u status soup = Inr r \<and>
     url r = u \<and> status_code r = status \<and>
     title r = (case find_first soup ''title'' of
                  None \<Rightarrow> None
                | Some t \<Rightarrow> Some (clean_text (get_text t))) \<and>
     meta_description r = (case find_with_attr soup ''meta'' ''name'' ''description'' of
                             None \<Rightarrow> None
                           | Some m \<Rightarrow> map_of (attrs m) ''content'') \<and>
     headers r = headers_loop soup [1..6] Map.empty \<and>
     paragraphs r = map (\<lambda>p. clean_text (get_text p))
                      (filter (\<lambda>p. clean_text (get_text p) \<noteq> []) (find_all soup ''p''))"
proof -
  obtain entries where "collect_code_blocks soup = Inr entries"
    using collect_code_blocks_total by blast
  from extract_content_eq [OF this, of u status] show ?thesis by simp
qed

lemma normalized_nonempty:
  "map (\<lambda>x. clean_text (get_text x)) (filter (\<lambda>x. clean_text (get_text x) \<noteq> []) xs) =
   filter (\<lambda>s. s \<noteq> []) (map (\<lambda>x. spec_normalize (get_text x)) xs)"
  by (induction xs) (simp_all add: clean_text_spec)

text \<open>What the header loop leaves under a key.\<close>

lemma headers_loop_lookup:
  "headers_loop soup levels d k =
     (if k \<in> (\<lambda>i. ''h'' @ str_int i) ` set levels \<and> find_all soup k \<noteq> []
      then Some (filter (\<lambda>s. s \<noteq> []) (map (\<lambda>h. spec_normalize (get_text h)) (find_all soup k)))
      else d k)"
proof (induction levels arbitrary: d)
  case Nil
  show ?case by simp
next
  case (Cons i levels)
  show ?case
    by (simp add: Cons.IH Let_def normalized_nonempty)
qed

lemma header_tags:
  "(\<lambda>i. ''h'' @ str_int i) ` set [1..6] = set [''h1'', ''h2'', ''h3'', ''h4'', ''h5'', ''h6'']"
proof -
  have "map (\<lambda>i. ''h'' @ str_int i) [1..6] = [''h1'', ''h2'', ''h3'', ''h4'', ''h5'', ''h6'']"
    by code_simp
  then have "set (map (\<lambda>i. ''h'' @ str_int i) [1..6]) =
      set [''h1'', ''h2'', ''h3'', ''h4'', ''h5'', ''h6'']"
    by (rule arg_cong)
  then show ?thesis by (simp only: set_map)
qed

text \<open>
  C2, as the program has it. For every document and every key \<open>k\<close>: \<open>k\<close> is bound in
  the \<open>headers\<close> mapping exactly when it is one of \<open>h1\<close> to \<open>h6\<close> and the document has
  at least one heading element of that name; it is then bound to the non-empty
  normalized texts of those elements, in document order. The sequence is empty when
  every heading of the level normalizes to the empty string.
\<close>

theorem headers_key_per_present_level:
  "\<exists>r. extract_content u status soup = Inr r \<and>
     headers r k =
       (if k \<in> set [''h1'', ''h2'', ''h3'', ''h4'', ''h5'', ''h6''] \<and> find_all soup k \<noteq> []
        then Some (filter (\<lambda>s. s \<noteq> [])
                     (map (\<lambda>h. spec_normalize (get_text h)) (find_all soup k)))
        else None)"
proof -
  obtain r where r: "extract_content u status soup = Inr r"
    "headers r = headers_loop soup [1..6] Map.empty"
    using extract_content_fields [of u status soup] by blast
  have "headers r k =
       (if k \<in> (\<lambda>i. ''h'' @ str_int i) ` set [1..6] \<and> find_all soup k \<noteq> []
        then Some (filter (\<lambda>s. s \<noteq> [])
                     (map (\<lambda>h. spec_normalize (get_text h)) (find_all soup k)))
        else None)"
    unfolding r(2) headers_loop_lookup by simp
  with r(1) show ?thesis unfolding header_tags by blast
qed

text \<open>
  The specification's sentence fails at \<open><h1> </h1>\<close>: the level has a heading element, so the
  key \<open>h1\<close> is set, and the only heading normalizes to the empty string, so the key is
  bound to the empty sequence.
\<close>

theorem headers_empty_sequence_counterexample:
  "map_sum id (\<lambda>r. headers r ''h1'') (extract_content ''http://example.com/'' 200 doc_blank_heading)
     = Inr (Some [])"
proof -
  obtain r where r: "extract_content ''http://example.com/'' 200 doc_blank_heading = Inr r"
    "headers r = headers_loop doc_blank_heading [1..6] Map.empty"
    using extract_content_fields [of "''http://example.com/''" 200 doc_blank_heading] by blast
  have "find_all doc_blank_heading ''h1'' = [Tag ''h1'' None [] [NavigableString '' '']]"
    by (simp add: doc_blank_heading_def find_all_def tags_in_def)
  moreover have "spec_normalize (get_text (Tag ''h1'' None [] [NavigableString '' ''])) = []"
    by (simp add: spec_normalize_def strip_def lstrip_def isspace_def)
  ultimately have "headers_loop doc_blank_heading [1..6] Map.empty ''h1'' = Some []"
    unfolding headers_loop_lookup header_tags by simp
  with r show ?thesis by simp
qed

text \<open>
  C6. For every document: when it has a \<open>title\<close> element, the title of the result is
  the normalization (runs of whitespace collapsed to one space, then trimmed) of the
  text of the first one, the empty string included; when it has none, the title is
  absent.
\<close>

theorem title_of_first_title_element:
  "\<exists>r. extract_content u status soup = Inr r \<and>
     title r = (case find_all soup ''title'' of
                  [] \<Rightarrow> None
                | t # _ \<Rightarrow> Some (spec_normalize (get_text t)))"
proof -
  obtain r where r: "extract_content u status soup = Inr r"
    "title r = (case find_first soup ''title'' of
                  None \<Rightarrow> None
                | Some t \<Rightarrow> Some (clean_text (get_text t)))"
    using extract_content_fields [of u status soup] by blast
  from r(2) have "title r = (case find_all soup ''title'' of
                  [] \<Rightarrow> None
                | t # _ \<Rightarrow> Some (spec_normalize (get_text t)))"
    by (simp add: find_first_def clean_text_spec split: list.splits)
  with r(1) show ?thesis by blast
qed

text \<open>
  C7. For every document: the meta description of the result is the \<open>content\<close>
  attribute, as it stands, of the first \<open>meta\<close> element whose \<open>name\<close> attribute is
  \<open>description\<close>; it is absent when there is no such element, and when that element
  has no \<open>content\<close> attribute.
\<close>

theorem meta_description_verbatim:
  "\<exists>r. extract_content u status soup = Inr r \<and>
     meta_description r =
       (case filter (\<lambda>t. name t = ''meta'' \<and> map_of (attrs t) ''name'' = Some ''description'')
               (map snd (tags_in soup)) of
          [] \<Rightarrow> None
        | m # _ \<Rightarrow> map_of (attrs m) ''content'')"
proof -
  obtain r where r: "extract_content u status soup = Inr r"
    "meta_description r = (case find_with_attr soup ''meta'' ''name'' ''description'' of
                             None \<Rightarrow> None
                           | Some m \<Rightarrow> map_of (attrs m) ''content'')"
    using extract_content_fields [of u status soup] by blast
  from r(2) have "meta_description r =
       (case filter (\<lambda>t. name t = ''meta'' \<and> map_of (attrs t) ''name'' = Some ''description'')
               (map snd (tags_in soup)) of
          [] \<Rightarrow> None
        | m # _ \<Rightarrow> map_of (attrs m) ''content'')"
    by (simp add: find_with_attr_def split: list.splits)
  with r(1) show ?thesis by blast
qed

text \<open>
  C8. For every document: the paragraphs of the result are the normalized texts of the
  \<open>p\<close> elements in document order, without the empty ones; a text normalizes to the
  empty string exactly when it consists of whitespace only.
\<close>

theorem paragraphs_normalized_nonempty:
  "\<exists>r. extract_content u status soup = Inr r \<and>
     paragraphs r =
       filter (\<lambda>s. s \<noteq> []) (map (\<lambda>p. spec_normalize (get_text p)) (find_all soup ''p'')) \<and>
     (spec_normalize s = [] \<longleftrightarrow> list_all isspace s)"
proof -
  obtain r where r: "extract_content u status soup = Inr r"
    "paragraphs r = map (\<lambda>p. clean_text (get_text p))
                      (filter (\<lambda>p. clean_text (get_text p) \<noteq> []) (find_all soup ''p''))"
    using extract_content_fields [of u status soup] by blast
  from r show ?thesis
    by (auto simp: normalized_nonempty spec_normalize_Nil_iff)
qed

text \<open>The extraction at a small page with a title, a meta description, a paragraph and
  a blank paragraph.\<close>

lemma extract_doc_page:
  "\<exists>r. extract_content u status doc_page = Inr r \<and>
     title r = Some ''A B'' \<and> meta_description r = Some '' x  y '' \<and>
     paragraphs r = [''one two''] \<and> code_blocks r = []"
proof -
  have c: "collect_code_blocks doc_page = Inr []"
    by (simp add: doc_page_def eval_defs)
  from extract_content_eq [OF c, of u status] show ?thesis
    by (simp add: doc_page_def find_first_def find_all_def find_with_attr_def tags_in_def
        clean_text_def strip_def lstrip_def isspace_def)
qed

section \<open>The fetch and its failures\<close>

lemma raise_for_status_error:
  assumes "400 \<le> r_status_code resp" "r_status_code resp < 600"
  shows "raise_for_status resp =
     Inl (Raise HTTPError
            (str_int (r_status_code resp) @
             (if r_status_code resp < 500 then '' Client Error: '' else '' Server Error: '') @
             r_reason resp @ '' for url: '' @ r_url resp))"
  using assms by (simp add: raise_for_status_def)

lemma raise_for_status_ok:
  "raise_for_status resp = Inr x \<longleftrightarrow> \<not> (400 \<le> r_status_code resp \<and> r_status_code resp < 600)"
  by (auto simp: raise_for_status_def)

text \<open>
  C9. Whenever the fetch fails, \<open>scrape_website\<close> raises an \<open>HTTPException\<close> with
  status 400 whose detail is \<open>Failed to fetch URL: \<close> followed by the text of the
  cause, and returns no result: when the transport raises an exception of the
  \<open>RequestException\<close> hierarchy (a timeout and a connection failure are such), and
  when the response has a status from 400 to 599, for which \<open>raise_for_status\<close>
  raises an \<open>HTTPError\<close>. A timeout in particular gives status 400 with the text of
  the timeout in the detail, not status 500.
\<close>

theorem fetch_failure_raises_400:
  "(get u (request_headers user_agent) timeout = Inl (Raise cls cause) \<and> is_RequestException cls
      \<longrightarrow> scrape_website get u timeout user_agent =
            Inl (HTTPException 400 (''Failed to fetch URL: '' @ cause)))
   \<and> (get u (request_headers user_agent) timeout = Inl (Raise Timeout cause)
      \<longrightarrow> scrape_website get u timeout user_agent =
            Inl (HTTPException 400 (''Failed to fetch URL: '' @ cause)))
   \<and> (get u (request_headers user_agent) timeout = Inl (Raise ConnectionError cause)
      \<longrightarrow> scrape_website get u timeout user_agent =
            Inl (HTTPException 400 (''Failed to fetch URL: '' @ cause)))
   \<and> (get u (request_headers user_agent) timeout = Inr resp \<and>
       400 \<le> r_status_code resp \<and> r_status_code resp < 600
      \<longrightarrow> (\<exists>msg. raise_for_status resp = Inl (Raise HTTPError msg) \<and>
             scrape_website get u timeout user_agent =
               Inl (HTTPException 400 (''Failed to fetch URL: '' @ msg))))"
proof (intro conjI impI)
  assume "get u (request_headers user_agent) timeout = Inl (Raise cls cause) \<and>
    is_RequestException cls"
  then show "scrape_website get u timeout user_agent =
      Inl (HTTPException 400 (''Failed to fetch URL: '' @ cause))"
    by (simp add: scrape_website_def try_scrape_def)
next
  assume "get u (request_headers user_agent) timeout = Inl (Raise Timeout cause)"
  then show "scrape_website get u timeout user_agent =
      Inl (HTTPException 400 (''Failed to fetch URL: '' @ cause))"
    by (simp add: scrape_website_def try_scrape_def)
next
  assume "get u (request_headers user_agent) timeout = Inl (Raise ConnectionError cause)"
  then show "scrape_website get u timeout user_agent =
      Inl (HTTPException 400 (''Failed to fetch URL: '' @ cause))"
    by (simp add: scrape_website_def try_scrape_def)
next
  assume a: "get u (request_headers user_agent) timeout = Inr resp \<and>
    400 \<le> r_status_code resp \<and> r_status_code resp < 600"
  then obtain msg where msg: "raise_for_status resp = Inl (Raise HTTPError msg)"
    using raise_for_status_error [of resp] by blast
  with a have "scrape_website get u timeout user_agent =
      Inl (HTTPException 400 (''Failed to fetch URL: '' @ msg))"
    by (simp add: scrape_website_def try_scrape_def)
  with msg show "\<exists>msg. raise_for_status resp = Inl (Raise HTTPError msg) \<and>
      scrape_website get u timeout user_agent =
        Inl (HTTPException 400 (''Failed to fetch URL: '' @ msg))"
    by blast
qed

text \<open>
  The theorem at a transport that times out, at one that cannot connect, and at one
  that answers 404.
\<close>

theorem fetch_failure_raises_400_witness:
  "scrape_website (fails Timeout ''Read timed out. (read timeout=10)'') ''http://example.com/'' 10 None =
     Inl (HTTPException 400 ''Failed to fetch URL: Read timed out. (read timeout=10)'')
   \<and> scrape_website (fails ConnectionError ''Name or service not known'') ''http://example.com/'' 10 None =
     Inl (HTTPException 400 ''Failed to fetch URL: Name or service not known'')
   \<and> scrape_website (answers 404 ''Not Found'' doc_page) ''http://example.com/'' 10 None =
     Inl (HTTPException 400
            ''Failed to fetch URL: 404 Client Error: Not Found for url: http://example.com/'')"
proof -
  let ?u = "''http://example.com/''"
  let ?t = "fails Timeout ''Read timed out. (read timeout=10)''"
  let ?c = "fails ConnectionError ''Name or service not known''"
  let ?a = "answers 404 ''Not Found'' doc_page"
  let ?resp = "\<lparr>r_status_code = 404, r_reason = ''Not Found'', r_url = ?u, r_content = doc_page\<rparr>"
  have t: "?t ?u (request_headers None) 10 = Inl (Raise Timeout ''Read timed out. (read timeout=10)'')"
    by (simp add: fails_def)
  have c: "?c ?u (request_headers None) 10 = Inl (Raise ConnectionError ''Name or service not known'')"
    by (simp add: fails_def)
  have a: "?a ?u (request_headers None) 10 = Inr ?resp \<and>
      400 \<le> r_status_code ?resp \<and> r_status_code ?resp < 600"
    by (simp add: answers_def)
  have "str_int 404 = ''404''" by code_simp
  then have m: "raise_for_status ?resp =
      Inl (Raise HTTPError ''404 Client Error: Not Found for url: http://example.com/'')"
    by (simp add: raise_for_status_def)
  from fetch_failure_raises_400 [of ?t ?u None 10 Timeout "''Read timed out. (read timeout=10)''"] t
  have 1: "scrape_website ?t ?u 10 None =
      Inl (HTTPException 400 (''Failed to fetch URL: '' @ ''Read timed out. (read timeout=10)''))"
    by blast
  from fetch_failure_raises_400 [of ?c ?u None 10 _ "''Name or service not known''"] c
  have 2: "scrape_website ?c ?u 10 None =
      Inl (HTTPException 400 (''Failed to fetch URL: '' @ ''Name or service not known''))"
    by blast
  from fetch_failure_raises_400 [of ?a ?u None 10 _ _ ?resp] a
  obtain msg where "raise_for_status ?resp = Inl (Raise HTTPError msg)"
    "scrape_website ?a ?u 10 None = Inl (HTTPException 400 (''Failed to fetch URL: '' @ msg))"
    by blast
  with m have 3: "scrape_website ?a ?u 10 None =
      Inl (HTTPException 400
        (''Failed to fetch URL: '' @
         ''404 Client Error: Not Found for url: http://example.com/''))"
    by simp
  from 1 2 3 show ?thesis by simp
qed

text \<open>
  C10, as the program has it. A result that \<open>scrape_website\<close> returns carries the
  status of the response the transport gave, and that status is not one from 400 to
  599: for those \<open>raise_for_status\<close> raises before the extraction begins. A status of
  600 or more is not an error for \<open>raise_for_status\<close> and is returned as it is.
\<close>

theorem returned_status_not_4xx_5xx:
  assumes "scrape_website get u timeout user_agent = Inr r"
  shows "(\<exists>resp. get u (request_headers user_agent) timeout = Inr resp \<and>
            status_code r = r_status_code resp) \<and>
         \<not> (400 \<le> status_code r \<and> status_code r < 600)"
proof -
  from assms have t: "try_scrape get u timeout user_agent = Inr r"
    by (auto simp: scrape_website_def split: sum.splits py_exception.splits if_splits)
  then obtain resp where resp: "get u (request_headers user_agent) timeout = Inr resp"
    by (auto simp: try_scrape_def split: sum.splits)
  with t obtain x where ok: "raise_for_status resp = Inr x"
    and ex: "extract_content u (r_status_code resp) (r_content resp) = Inr r"
    by (auto simp: try_scrape_def split: sum.splits)
  from extract_content_fields [of u "r_status_code resp" "r_content resp"] ex
  have "status_code r = r_status_code resp" by auto
  with resp ok show ?thesis by (auto simp: raise_for_status_ok)
qed

text \<open>The theorem at a transport that answers 200 with a small page.\<close>

theorem returned_status_not_4xx_5xx_witness:
  "\<exists>r. scrape_website (answers 200 ''OK'' doc_page) ''http://example.com/'' 10 None = Inr r \<and>
     status_code r = 200 \<and> \<not> (400 \<le> status_code r \<and> status_code r < 600)"
proof -
  let ?u = "''http://example.com/''"
  obtain r where r: "extract_content ?u 200 doc_page = Inr r"
    using extract_content_fields [of ?u 200 doc_page] by blast
  then have s: "scrape_website (answers 200 ''OK'' doc_page) ?u 10 None = Inr r"
    by (simp add: scrape_website_def try_scrape_def answers_def raise_for_status_def)
  from returned_status_not_4xx_5xx [OF s]
  have "status_code r = 200" "\<not> (400 \<le> status_code r \<and> status_code r < 600)"
    by (auto simp: answers_def)
  with s show ?thesis by blast
qed

text \<open>
  The sentence that a returned status is below 400 fails at a response with status
  999: it is returned, with \<open>status_code = 999\<close>.
\<close>

theorem returned_status_below_400_counterexample:
  "map_sum id status_code
     (scrape_website (answers 999 ''Request denied'' []) ''http://example.com/'' 10 None) = Inr 999"
proof -
  let ?u = "''http://example.com/''"
  obtain r where r: "extract_content ?u 999 [] = Inr r" "status_code r = 999"
    using extract_content_fields [of ?u 999 "[]"] by blast
  then have "scrape_website (answers 999 ''Request denied'' []) ?u 10 None = Inr r"
    by (simp add: scrape_website_def try_scrape_def answers_def raise_for_status_def)
  with r(2) show ?thesis by simp
qed

end
